theory Spec2Isabelle
  imports Main "HOL-Library.Sublist"
begin

section \<open>Python strings\<close>

text \<open>
  A Python \<open>str\<close> is modelled as a \<open>string\<close>: one \<open>char\<close> per code point, for the code
  points below 256. On that range \<open>str.isspace\<close> (the characters removed by \<open>str.strip()\<close>
  and matched by the regular expression \<open>\s\<close>) holds for the twelve characters below, and
  \<open>\d\<close> matches the ten ASCII digits only.
\<close>

definition whitespace :: "char list" where
  "whitespace =
     [CHR 0x09, CHR 0x0A, CHR 0x0B, CHR 0x0C, CHR 0x0D, CHR 0x1C, CHR 0x1D, CHR 0x1E,
      CHR 0x1F, CHR 0x20, CHR 0x85, CHR 0xA0]"

definition is_space :: "char \<Rightarrow> bool" where
  "is_space c = (c \<in> set whitespace)"

definition is_digit :: "char \<Rightarrow> bool" where
  "is_digit c = (c \<in> set ''0123456789'')"

text \<open>\<open>s.strip()\<close>: leading and trailing whitespace removed.\<close>

definition strip :: "string \<Rightarrow> string" where
  "strip s = rev (dropWhile is_space (rev (dropWhile is_space s)))"

text \<open>\<open>s.replace("\n", " ")\<close>: every line feed becomes a space.\<close>

definition replace_newlines :: "string \<Rightarrow> string" where
  "replace_newlines s = map (\<lambda>c. if c = CHR 0x0A then CHR '' '' else c) s"

text \<open>\<open>a in b\<close> on strings: \<open>a\<close> occurs in \<open>b\<close> as a contiguous substring.\<close>

fun str_in :: "string \<Rightarrow> string \<Rightarrow> bool" where
  "str_in a [] = (a = [])"
| "str_in a (c # cs) = (prefix a (c # cs) \<or> str_in a cs)"

text \<open>\<open>sep.join(xs)\<close>.\<close>

fun join_str :: "string \<Rightarrow> string list \<Rightarrow> string" where
  "join_str sep [] = []"
| "join_str sep [x] = x"
| "join_str sep (x # y # ys) = x @ sep @ join_str sep (y # ys)"

text \<open>
  \<open>xs[i:]\<close> for a possibly negative \<open>i\<close>: a negative start counts from the end and is
  clamped at the beginning of the sequence, a start past the end gives the empty sequence.
\<close>

definition py_slice_from :: "int \<Rightarrow> 'a list \<Rightarrow> 'a list" where
  "py_slice_from i xs =
     (let n = int (length xs);
          start = (if i < 0 then max (n + i) 0 else min i n)
      in drop (nat start) xs)"

section \<open>Transcript cleaning\<close>

text \<open>The keys of \<open>itertools.groupby\<close>: one element for every run of equal elements.\<close>

definition groupby_keys :: "'a list \<Rightarrow> 'a list" where
  "groupby_keys xs = remdups_adj xs"

text \<open>
  The first pass of \<open>clean_lines\<close>:
  \<open>[k for k, _ in groupby([ln.strip() for ln in lines if ln.strip()])]\<close>.
\<close>

definition exact_pass :: "string list \<Rightarrow> string list" where
  "exact_pass lines = groupby_keys (map strip (filter (\<lambda>ln. strip ln \<noteq> []) lines))"

text \<open>
  One iteration of the loop over \<open>exact\<close>, on the accumulator \<open>final\<close>; the branches are in
  the order of the source, and \<open>final[-1] = ln\<close> is an update at the last index (only
  reached with a non-empty accumulator).
\<close>

definition overlap_step :: "string list \<Rightarrow> string \<Rightarrow> string list" where
  "overlap_step final ln =
     (if final = [] then final @ [ln]
      else let prev = last final in
        if ln = prev then final
        else if str_in ln prev then final
        else if str_in prev ln then final[length final - 1 := ln]
        else final @ [ln])"

definition clean_lines :: "string list \<Rightarrow> string list" where
  "clean_lines lines = foldl overlap_step [] (exact_pass lines)"


text \<open>
  The adjacency property that the loop keeps: no line of the accumulator occurs inside the
  line just before it.
\<close>

definition later_not_in_earlier :: "string list \<Rightarrow> bool" where
  "later_not_in_earlier xs = successively (\<lambda>x y. \<not> str_in y x) xs"

section \<open>Projection of cues to lines\<close>

text \<open>
  A cue as \<open>webvtt.read\<close> yields it: the start time as the string \<open>HH:MM:SS.mmm\<close> and the
  caption text, possibly of several physical lines.
\<close>

record cue =
  cue_start :: string
  cue_text :: string

text \<open>A raised exception: the name of its class and its message (\<open>str(e)\<close>).\<close>

datatype exn = Exn (exn_type: string) (exn_msg: string)

definition empty_transcript_error :: exn where
  "empty_transcript_error = Exn ''ValueError'' ''Subtitles file was empty after parsing.''"

text \<open>\<open>s.split(".")[0]\<close>: the part of \<open>s\<close> before its first full stop, all of \<open>s\<close> without one.\<close>

definition split_dot_first :: "string \<Rightarrow> string" where
  "split_dot_first s = takeWhile (\<lambda>c. c \<noteq> CHR ''.'') s"

text \<open>The loop of \<open>vtt_to_lines\<close> over the cues, on the accumulator \<open>lines\<close>.\<close>

fun project_cues :: "cue list \<Rightarrow> bool \<Rightarrow> string list \<Rightarrow> string list" where
  "project_cues [] include_timestamps lines = lines"
| "project_cues (c # cs) include_timestamps lines =
     (let txt = replace_newlines (strip (cue_text c)) in
      if txt = [] then project_cues cs include_timestamps lines
      else if include_timestamps then
        (let ts = split_dot_first (cue_start c)
         in project_cues cs include_timestamps (lines @ [''['' @ ts @ ''] '' @ txt]))
      else project_cues cs include_timestamps (lines @ [txt]))"

definition vtt_to_lines :: "cue list \<Rightarrow> bool \<Rightarrow> exn + string list" where
  "vtt_to_lines cues include_timestamps =
     (let lines = project_cues cues include_timestamps []
      in if lines = [] then Inl empty_transcript_error else Inr lines)"

section \<open>Paragraph form\<close>

text \<open>A ten-character marker \<open>[dd:dd:dd]\<close>, the match of \<open>\[\d{2}:\d{2}:\d{2}\]\<close>.\<close>

fun timestamp_bracket :: "string \<Rightarrow> bool" where
  "timestamp_bracket [b, h1, h2, c1, m1, m2, c2, s1, s2, e] =
     (b = CHR ''['' \<and> is_digit h1 \<and> is_digit h2 \<and> c1 = CHR '':'' \<and> is_digit m1 \<and> is_digit m2
      \<and> c2 = CHR '':'' \<and> is_digit s1 \<and> is_digit s2 \<and> e = CHR '']'')"
| "timestamp_bracket _ = False"

text \<open>
  The match of \<open>^\[\d{2}:\d{2}:\d{2}\]\s*\<close> on a line: what is left of the line after the
  match (the greedy \<open>\s*\<close> takes all the whitespace after the bracket), or \<open>None\<close> when the
  line does not start with a marker. The pattern is anchored, so \<open>re.sub\<close> replaces at
  most this one match.
\<close>

definition match_timestamp :: "string \<Rightarrow> string option" where
  "match_timestamp line =
     (if timestamp_bracket (take 10 line) then Some (dropWhile is_space (drop 10 line))
      else None)"

definition strip_timestamps :: "string \<Rightarrow> string" where
  "strip_timestamps line =
     strip (case match_timestamp line of Some rest \<Rightarrow> rest | None \<Rightarrow> line)"

text \<open>The list \<open>no_ts\<close> of \<open>save_transcript\<close> and the text written to the paragraph file.\<close>

definition no_ts :: "string list \<Rightarrow> string list" where
  "no_ts cleaned = map strip_timestamps (filter (\<lambda>ln. strip ln \<noteq> []) cleaned)"

definition paragraph_text :: "string list \<Rightarrow> string" where
  "paragraph_text cleaned = join_str '' '' (no_ts cleaned)"

subsection \<open>The reducer in the words of the specification\<close>

text \<open>
  The marker is \<open>[HH:MM:SS]\<close> followed by exactly one space; it is removed when the line
  starts with it, the rest is trimmed, lines that have become empty are dropped and the
  others are joined by single spaces.
\<close>

definition spec_strip_marker :: "string \<Rightarrow> string" where
  "spec_strip_marker line =
     (if timestamp_bracket (take 10 line) \<and> take 1 (drop 10 line) = '' '' then drop 11 line
      else line)"

definition spec_paragraph :: "string list \<Rightarrow> string" where
  "spec_paragraph lines =
     join_str '' '' (filter (\<lambda>s. s \<noteq> []) (map (\<lambda>ln. strip (spec_strip_marker ln)) lines))"

text \<open>
  The same reducer with the marker taken without its space and with no line dropped: the
  marker \<open>[HH:MM:SS]\<close> is removed when the line starts with it, the rest is trimmed (which
  removes any whitespace after the marker), and all the lines are joined by single spaces.
\<close>

definition reduce_line :: "string \<Rightarrow> string" where
  "reduce_line line = strip (if timestamp_bracket (take 10 line) then drop 10 line else line)"

definition reduce_paragraph :: "string list \<Rightarrow> string" where
  "reduce_paragraph lines = join_str '' '' (map reduce_line lines)"

section \<open>Pipeline and batch loop\<close>

text \<open>
  What \<open>save_transcript\<close> takes from outside the program, over a state \<open>'w\<close> of the file
  system and network: the output directory, the functions of \<open>os.path\<close>, \<open>download_vtt\<close>
  (calls to yt-dlp and a glob over the run directory: the exception raised or the path of
  the track), \<open>webvtt.read\<close>, the writing of a text file and \<open>shutil.move\<close>. An operation
  that can raise returns the exception as a value.
\<close>

record 'w env =
  output_dir :: string
  path_basename :: "string \<Rightarrow> string"
  path_splitext_root :: "string \<Rightarrow> string"
  path_join :: "string \<Rightarrow> string \<Rightarrow> string"
  path_abspath :: "string \<Rightarrow> string"
  download_vtt :: "'w \<Rightarrow> string \<Rightarrow> 'w \<times> (exn + string)"
  webvtt_read :: "'w \<Rightarrow> string \<Rightarrow> exn + cue list"
  write_text :: "'w \<Rightarrow> string \<Rightarrow> string \<Rightarrow> 'w \<times> exn option"
  move_file :: "'w \<Rightarrow> string \<Rightarrow> string \<Rightarrow> 'w \<times> exn option"

text \<open>
  The relocation of the track file at the end of \<open>save_transcript\<close>: the move is attempted
  when the two absolute paths differ, and an exception of the move is caught, the track
  then being reported at its original place.
\<close>

definition relocate_vtt :: "'w env \<Rightarrow> 'w \<Rightarrow> string \<Rightarrow> 'w \<times> string" where
  "relocate_vtt E w vtt_path =
     (let vtt_out = path_join E (output_dir E) (path_basename E vtt_path) in
      if path_abspath E vtt_path \<noteq> path_abspath E vtt_out then
        (case move_file E w vtt_path vtt_out of
           (w', None) \<Rightarrow> (w', vtt_out)
         | (w', Some e) \<Rightarrow> (w', path_abspath E vtt_path))
      else (w, vtt_out))"

definition save_transcript ::
  "'w env \<Rightarrow> 'w \<Rightarrow> string \<Rightarrow> string \<Rightarrow> bool \<Rightarrow> 'w \<times> (exn + string \<times> string \<times> string)" where
  "save_transcript E w video_url_or_id base_name include_timestamps =
     (let stem = path_splitext_root E (path_basename E base_name);
          base = (if stem = [] then ''transcript'' else stem)
      in case download_vtt E w video_url_or_id of
           (w1, Inl e) \<Rightarrow> (w1, Inl e)
         | (w1, Inr vtt_path) \<Rightarrow>
             (case webvtt_read E w1 vtt_path of
                Inl e \<Rightarrow> (w1, Inl e)
              | Inr cues \<Rightarrow>
                  (case vtt_to_lines cues include_timestamps of
                     Inl e \<Rightarrow> (w1, Inl e)
                   | Inr lines \<Rightarrow>
                       (let cleaned = clean_lines lines;
                            txt_path = path_join E (output_dir E) (base @ ''.txt'')
                        in case write_text E w1 txt_path (join_str [CHR 0x0A] cleaned) of
                             (w2, Some e) \<Rightarrow> (w2, Inl e)
                           | (w2, None) \<Rightarrow>
                               (let para_path =
                                      path_join E (output_dir E) (base @ ''_paragraphs.txt'')
                                in case write_text E w2 para_path (paragraph_text cleaned) of
                                     (w3, Some e) \<Rightarrow> (w3, Inl e)
                                   | (w3, None) \<Rightarrow>
                                       (case relocate_vtt E w3 vtt_path of
                                          (w4, vtt_out) \<Rightarrow>
                                            (w4, Inr (path_abspath E txt_path,
                                                      path_abspath E para_path,
                                                      path_abspath E vtt_out))))))))"

text \<open>
  The row that the batch loop appends for one reference: the \<open>try\<close> branch on a returned
  triple, the \<open>except Exception\<close> branch on a raised exception.
\<close>

fun result_row ::
  "string \<Rightarrow> exn + string \<times> string \<times> string \<Rightarrow> string \<times> string \<times> string \<times> string" where
  "result_row item (Inr (txt_path, para_path, vtt_path)) = (item, ''OK'', txt_path, para_path)"
| "result_row item (Inl e) = (item, ''ERROR: '' @ exn_msg e, [], [])"

text \<open>The loop \<open>for item in entries\<close> on the state and the list \<open>results\<close>.\<close>

fun batch_loop ::
  "'w env \<Rightarrow> bool \<Rightarrow> string list \<Rightarrow> 'w \<Rightarrow> (string \<times> string \<times> string \<times> string) list
     \<Rightarrow> 'w \<times> (string \<times> string \<times> string \<times> string) list" where
  "batch_loop E batch_ts [] w results = (w, results)"
| "batch_loop E batch_ts (item # entries) w results =
     (let vid = py_slice_from (- 11) item in
      case save_transcript E w item vid batch_ts of
        (w', r) \<Rightarrow> batch_loop E batch_ts entries w' (results @ [result_row item r]))"

definition run_batch ::
  "'w env \<Rightarrow> bool \<Rightarrow> string list \<Rightarrow> 'w \<Rightarrow> 'w \<times> (string \<times> string \<times> string \<times> string) list" where
  "run_batch E batch_ts entries w = batch_loop E batch_ts entries w []"

text \<open>
  A small environment on which the statements below are instantiated: the state is the
  list of the files written, the reference \<open>bad\<close> has no subtitles, every other reference
  has a track of one cue.
\<close>

definition demo_env :: "string list env" where
  "demo_env =
     \<lparr> output_dir = ''out'',
       path_basename = (\<lambda>p. p),
       path_splitext_root = (\<lambda>p. p),
       path_join = (\<lambda>d f. d @ ''/'' @ f),
       path_abspath = (\<lambda>p. ''/'' @ p),
       download_vtt = (\<lambda>w r. if r = ''bad''
                               then (w, Inl (Exn ''DownloadError'' ''no subtitles''))
                               else (w, Inr (r @ ''.en.vtt''))),
       webvtt_read = (\<lambda>w p. Inr [\<lparr> cue_start = ''00:01:02.345'', cue_text = ''hello'' \<rparr>]),
       write_text = (\<lambda>w p s. (w @ [p], None)),
       move_file = (\<lambda>w a b. (w, None)) \<rparr>"

section \<open>Substrings, trimming and the cleaning loop\<close>

lemma str_in_sublist: "str_in a b = sublist a b"
  by (induction b) (simp_all add: sublist_Cons_right)

lemma str_in_refl: "str_in a a"
  by (simp add: str_in_sublist)

lemma str_in_trans: "str_in a b \<Longrightarrow> str_in b c \<Longrightarrow> str_in a c"
  unfolding str_in_sublist by (rule sublist_order.order.trans)

lemma overlap_step_Nil: "overlap_step [] ln = [ln]"
  by (simp add: overlap_step_def)

lemma overlap_step_snoc:
  "overlap_step (ys @ [p]) ln =
     (if str_in ln p then ys @ [p]
      else if str_in p ln then ys @ [ln]
      else ys @ [p, ln])"
  by (auto simp: overlap_step_def Let_def str_in_refl)

lemma later_not_in_earlier_step:
  assumes "later_not_in_earlier final"
  shows "later_not_in_earlier (overlap_step final ln)"
proof (cases final rule: rev_cases)
  case Nil
  then show ?thesis by (simp add: overlap_step_Nil later_not_in_earlier_def)
next
  case (snoc ys p)
  show ?thesis
  proof (cases "str_in ln p")
    case True
    with snoc assms show ?thesis by (simp add: overlap_step_snoc)
  next
    case notin: False
    show ?thesis
    proof (cases "str_in p ln")
      case True
      have "ys = [] \<or> \<not> str_in ln (last ys)"
      proof (cases "ys = []")
        case False
        with assms snoc have "\<not> str_in p (last ys)"
          by (simp add: later_not_in_earlier_def successively_append_iff)
        with True have "\<not> str_in ln (last ys)"
          using str_in_trans by blast
        then show ?thesis ..
      qed simp
      with assms snoc notin True show ?thesis
        by (auto simp: overlap_step_snoc later_not_in_earlier_def successively_append_iff)
    next
      case False
      with assms snoc notin show ?thesis
        by (auto simp: overlap_step_snoc later_not_in_earlier_def successively_append_iff)
    qed
  qed
qed

lemma later_not_in_earlier_foldl:
  "later_not_in_earlier final \<Longrightarrow> later_not_in_earlier (foldl overlap_step final xs)"
  by (induction xs arbitrary: final) (simp_all add: later_not_in_earlier_step)

lemma later_not_in_earlier_clean_lines: "later_not_in_earlier (clean_lines xs)"
  unfolding clean_lines_def
  by (rule later_not_in_earlier_foldl) (simp add: later_not_in_earlier_def)

lemma dropWhile_rev_keeps_head:
  "dropWhile P xs = xs \<Longrightarrow>
     dropWhile P (rev (dropWhile P (rev xs))) = rev (dropWhile P (rev xs))"
proof (induction xs rule: rev_induct)
  case Nil
  then show ?case by simp
next
  case (snoc y ys)
  show ?case
  proof (cases "P y")
    case False
    with snoc.prems show ?thesis by simp
  next
    case True
    have "dropWhile P ys = ys"
    proof (cases ys)
      case Nil
      then show ?thesis by simp
    next
      case (Cons z zs)
      from snoc.prems have "\<not> P (hd (ys @ [y]))" by (simp add: dropWhile_eq_self_iff)
      with Cons show ?thesis by simp
    qed
    with snoc.IH True show ?thesis by simp
  qed
qed

lemma strip_strip: "strip (strip s) = strip s"
  unfolding strip_def by (simp add: dropWhile_rev_keeps_head)

lemma subseq_overlap_step:
  assumes "subseq final ys"
  shows "subseq (overlap_step final ln) (ys @ [ln])"
proof (cases final rule: rev_cases)
  case Nil
  then show ?thesis by (simp add: overlap_step_Nil subseq_singleton_left)
next
  case (snoc zs p)
  have keep: "subseq (zs @ [p]) (ys @ [ln])"
    using assms snoc by (simp add: subseq_rev_drop_many)
  have "subseq zs (zs @ [p])" by (simp add: subseq_rev_drop_many)
  with assms snoc have "subseq zs ys"
    using subseq_order.trans by blast
  then have replace: "subseq (zs @ [ln]) (ys @ [ln])" by simp
  have "subseq ((zs @ [p]) @ [ln]) (ys @ [ln])"
    using assms snoc by (simp only: subseq_append)
  then have append: "subseq (zs @ [p, ln]) (ys @ [ln])" by simp
  from keep replace append snoc show ?thesis
    by (simp add: overlap_step_snoc)
qed

lemma subseq_foldl_overlap_step: "subseq (foldl overlap_step [] ys) ys"
  by (induction ys rule: rev_induct) (simp_all add: subseq_overlap_step)

lemma subseq_groupby_keys: "subseq (groupby_keys xs) xs"
  unfolding groupby_keys_def
  by (induction xs rule: remdups_adj.induct) auto

lemma subseq_exact_pass: "subseq (exact_pass lines) (map strip lines)"
  unfolding exact_pass_def
  by (rule subseq_order.trans [OF subseq_groupby_keys]) (simp add: subseq_map)

lemma subseq_clean_lines_exact: "subseq (clean_lines lines) (exact_pass lines)"
  by (simp add: clean_lines_def subseq_foldl_overlap_step)

lemma set_exact_pass: "l \<in> set (exact_pass lines) \<Longrightarrow> strip l = l \<and> l \<noteq> []"
  by (auto simp: exact_pass_def groupby_keys_def strip_strip)

lemma set_clean_lines: "l \<in> set (clean_lines lines) \<Longrightarrow> strip l = l \<and> l \<noteq> []"
  using list_emb_set [OF subseq_clean_lines_exact] set_exact_pass by metis

lemma strip_filter_clean_lines:
  "map strip (filter (\<lambda>ln. strip ln \<noteq> []) (clean_lines lines)) = clean_lines lines"
proof -
  have "filter (\<lambda>ln. strip ln \<noteq> []) (clean_lines lines) = clean_lines lines"
    by (rule filter_True) (simp add: set_clean_lines)
  moreover have "map strip (clean_lines lines) = clean_lines lines"
    by (rule map_idI) (simp add: set_clean_lines)
  ultimately show ?thesis by simp
qed

lemma foldl_overlap_step_id:
  "successively (\<lambda>x y. \<not> str_in x y \<and> \<not> str_in y x) ys \<Longrightarrow> foldl overlap_step [] ys = ys"
proof (induction ys rule: rev_induct)
  case Nil
  then show ?case by simp
next
  case (snoc y ys)
  then have ih: "foldl overlap_step [] ys = ys"
    by (simp add: successively_append_iff)
  show ?case
  proof (cases ys rule: rev_cases)
    case Nil
    then show ?thesis by (simp add: overlap_step_Nil)
  next
    case (snoc zs p)
    with snoc.prems have "\<not> str_in p y" "\<not> str_in y p"
      by (simp_all add: successively_append_iff)
    with ih snoc show ?thesis by (simp add: overlap_step_snoc)
  qed
qed

section \<open>Timestamps, projection and the batch loop\<close>

lemma strip_dropWhile: "strip (dropWhile is_space s) = strip s"
  by (simp add: strip_def)

lemma strip_timestamps_reduce_line: "strip_timestamps = reduce_line"
  by (rule ext)
    (simp add: strip_timestamps_def match_timestamp_def reduce_line_def strip_dropWhile)

lemma no_ts_clean_lines: "no_ts (clean_lines xs) = map strip_timestamps (clean_lines xs)"
proof -
  have "filter (\<lambda>ln. strip ln \<noteq> []) (clean_lines xs) = clean_lines xs"
    by (rule filter_True) (simp add: set_clean_lines)
  then show ?thesis by (simp add: no_ts_def)
qed

lemma timestamp_bracket_length: "timestamp_bracket b \<Longrightarrow> length b = 10"
  by (erule timestamp_bracket.elims) simp_all

lemma dropWhile_all_append: "\<forall>c\<in>set ws. P c \<Longrightarrow> dropWhile P (ws @ rest) = dropWhile P rest"
  by (induction ws) simp_all

lemma replace_newlines_Nil: "(replace_newlines s = []) = (s = [])"
  by (simp add: replace_newlines_def)

lemma project_cues_acc:
  "project_cues cs ts lines = lines @ project_cues cs ts []"
proof (induction cs arbitrary: lines)
  case Nil
  then show ?case by simp
next
  case (Cons c cs)
  show ?case
    using Cons.IH [of "lines @ [''['' @ split_dot_first (cue_start c) @ ''] '' @ replace_newlines (strip (cue_text c))]"]
      Cons.IH [of "lines @ [replace_newlines (strip (cue_text c))]"]
      Cons.IH [of "[''['' @ split_dot_first (cue_start c) @ ''] '' @ replace_newlines (strip (cue_text c))]"]
      Cons.IH [of "[replace_newlines (strip (cue_text c))]"]
      Cons.IH [of lines]
    by (cases ts) (simp_all add: Let_def)
qed

lemma project_cues_Nil_iff:
  "(project_cues cs ts [] = []) = (\<forall>c\<in>set cs. strip (cue_text c) = [])"
proof (induction cs)
  case Nil
  then show ?case by simp
next
  case (Cons c cs)
  show ?case
  proof (cases "strip (cue_text c) = []")
    case True
    with Cons show ?thesis by (simp add: replace_newlines_def)
  next
    case False
    then have "replace_newlines (strip (cue_text c)) \<noteq> []" by (simp add: replace_newlines_Nil)
    with False show ?thesis
      using project_cues_acc [of cs ts "[''['' @ split_dot_first (cue_start c) @ ''] '' @ replace_newlines (strip (cue_text c))]"]
        project_cues_acc [of cs ts "[replace_newlines (strip (cue_text c))]"]
      by (auto simp: Let_def)
  qed
qed

lemma split_dot_first_append:
  "CHR ''.'' \<notin> set hms \<Longrightarrow> split_dot_first (hms @ CHR ''.'' # frac) = hms"
  by (induction hms) (auto simp: split_dot_first_def)

lemma py_slice_last_11: "py_slice_from (- 11) item = drop (length item - 11) item"
proof -
  have "nat (max (int (length item) + - 11) 0) = length item - 11" by simp
  then show ?thesis by (simp add: py_slice_from_def Let_def)
qed

lemma batch_loop_acc:
  "batch_loop E ts entries w acc
     = (fst (batch_loop E ts entries w []), acc @ snd (batch_loop E ts entries w []))"
proof (induction entries arbitrary: w acc)
  case Nil
  then show ?case by simp
next
  case (Cons item entries)
  obtain w' r where st: "save_transcript E w item (py_slice_from (- 11) item) ts = (w', r)"
    by (cases "save_transcript E w item (py_slice_from (- 11) item) ts")
  show ?case
    using Cons.IH [of w' "acc @ [result_row item r]"] Cons.IH [of w' "[result_row item r]"]
    by (simp add: st Let_def)
qed

lemma run_batch_Nil: "run_batch E ts [] w = (w, [])"
  by (simp add: run_batch_def)

lemma run_batch_Cons:
  "run_batch E ts (item # entries) w =
     (case save_transcript E w item (py_slice_from (- 11) item) ts of
        (w', r) \<Rightarrow> (fst (run_batch E ts entries w'),
                     result_row item r # snd (run_batch E ts entries w')))"
proof -
  obtain w' r where st: "save_transcript E w item (py_slice_from (- 11) item) ts = (w', r)"
    by (cases "save_transcript E w item (py_slice_from (- 11) item) ts")
  show ?thesis
    using batch_loop_acc [of E ts entries w' "[result_row item r]"]
    by (simp add: run_batch_def st Let_def)
qed

lemma run_batch_append:
  "run_batch E ts (xs @ ys) w =
     (fst (run_batch E ts ys (fst (run_batch E ts xs w))),
      snd (run_batch E ts xs w) @ snd (run_batch E ts ys (fst (run_batch E ts xs w))))"
proof (induction xs arbitrary: w)
  case Nil
  then show ?case by (simp add: run_batch_Nil)
next
  case (Cons x xs)
  then show ?case by (simp add: run_batch_Cons split: prod.splits)
qed

lemma fst_result_row: "fst (result_row item r) = item"
  by (cases "(item, r)" rule: result_row.cases) simp_all

lemma length_run_batch: "length (snd (run_batch E ts entries w)) = length entries"
  by (induction entries arbitrary: w) (simp_all add: run_batch_Nil run_batch_Cons split: prod.splits)

lemma map_fst_run_batch: "map fst (snd (run_batch E ts entries w)) = entries"
  by (induction entries arbitrary: w)
    (simp_all add: run_batch_Nil run_batch_Cons fst_result_row split: prod.splits)

lemma nth_run_batch:
  assumes "i < length entries"
  shows "snd (run_batch E ts entries w) ! i
           = result_row (entries ! i)
               (snd (save_transcript E (fst (run_batch E ts (take i entries) w)) (entries ! i)
                       (py_slice_from (- 11) (entries ! i)) ts))"
proof -
  have split: "entries = take i entries @ (entries ! i # drop (Suc i) entries)"
    using assms by (simp add: id_take_nth_drop [symmetric])
  have len: "length (snd (run_batch E ts (take i entries) w)) = i"
    using assms by (simp add: length_run_batch)
  have "snd (run_batch E ts entries w)
          = snd (run_batch E ts (take i entries) w)
            @ snd (run_batch E ts (entries ! i # drop (Suc i) entries)
                     (fst (run_batch E ts (take i entries) w)))"
    using run_batch_append [of E ts "take i entries" "entries ! i # drop (Suc i) entries" w] split
    by simp
  then have "snd (run_batch E ts entries w) ! i
          = hd (snd (run_batch E ts (entries ! i # drop (Suc i) entries)
                     (fst (run_batch E ts (take i entries) w))))"
    using len by (simp add: nth_append run_batch_Cons split: prod.splits)
  then show ?thesis by (simp add: run_batch_Cons split: prod.splits)
qed

lemma save_transcript_paths:
  assumes "\<forall>q. path_abspath E q \<noteq> []"
    and "save_transcript E w v b ts = (w', Inr (t, p, x))"
  shows "t \<noteq> [] \<and> p \<noteq> []"
  using assms
  by (auto simp: save_transcript_def Let_def split: prod.splits sum.splits option.splits)

section \<open>Properties of the transcript cleaner\<close>

text \<open>
  C1, as the code has it. In the output of \<open>clean_lines\<close> two adjacent lines are never
  equal, and a line never occurs inside the line just before it. (The other direction is
  not excluded: after a replacement the new last line may contain the line before it.)
\<close>

theorem clean_lines_adjacent:
  assumes "i + 1 < length (clean_lines xs)"
  shows "clean_lines xs ! i \<noteq> clean_lines xs ! (i + 1)
         \<and> \<not> str_in (clean_lines xs ! (i + 1)) (clean_lines xs ! i)"
proof -
  from later_not_in_earlier_clean_lines [of xs] assms
  have "\<not> str_in (clean_lines xs ! Suc i) (clean_lines xs ! i)"
    by (simp add: later_not_in_earlier_def successively_conv_nth)
  then show ?thesis using str_in_refl by auto
qed

theorem clean_lines_adjacent_witness:
  "0 + 1 < length (clean_lines [''hello'', ''hello'', ''world''])
   \<and> clean_lines [''hello'', ''hello'', ''world''] ! 0
       \<noteq> clean_lines [''hello'', ''hello'', ''world''] ! (0 + 1)
   \<and> \<not> str_in (clean_lines [''hello'', ''hello'', ''world''] ! (0 + 1))
             (clean_lines [''hello'', ''hello'', ''world''] ! 0)"
proof -
  have len: "0 + 1 < length (clean_lines [''hello'', ''hello'', ''world''])"
    by (simp add: clean_lines_def exact_pass_def groupby_keys_def overlap_step_def strip_def
        is_space_def whitespace_def)
  from clean_lines_adjacent [OF len] len show ?thesis by simp
qed

text \<open>
  The claim as stated fails: on the lines "ab", "c", "abc" the third line replaces the
  second, and the output keeps "ab" next to "abc", which contains it.
\<close>

theorem clean_lines_adjacent_counterexample:
  "clean_lines [''ab'', ''c'', ''abc''] = [''ab'', ''abc'']
   \<and> 0 + 1 < length (clean_lines [''ab'', ''c'', ''abc''])
   \<and> str_in (clean_lines [''ab'', ''c'', ''abc''] ! 0) (clean_lines [''ab'', ''c'', ''abc''] ! (0 + 1))"
  by (simp add: clean_lines_def exact_pass_def groupby_keys_def overlap_step_def strip_def
      is_space_def whitespace_def)

text \<open>
  C2, as the code has it. When no line of the output of \<open>clean_lines\<close> occurs inside the
  line just after it, cleaning the output again returns it unchanged.
\<close>

theorem clean_lines_fixed_point:
  assumes "\<forall>i. i + 1 < length (clean_lines xs)
             \<longrightarrow> \<not> str_in (clean_lines xs ! i) (clean_lines xs ! (i + 1))"
  shows "clean_lines (clean_lines xs) = clean_lines xs"
proof -
  let ?out = "clean_lines xs"
  have inv: "successively (\<lambda>x y. \<not> str_in y x) ?out"
    using later_not_in_earlier_clean_lines [of xs] by (simp add: later_not_in_earlier_def)
  from assms have fwd: "successively (\<lambda>x y. \<not> str_in x y) ?out"
    by (simp add: successively_conv_nth)
  have both: "successively (\<lambda>x y. \<not> str_in x y \<and> \<not> str_in y x) ?out"
    using inv fwd by (simp add: successively_conv_nth)
  have "distinct_adj ?out"
    unfolding distinct_adj_def
    by (rule successively_mono [OF inv]) (auto simp: str_in_refl)
  then have "exact_pass ?out = ?out"
    by (simp add: exact_pass_def strip_filter_clean_lines groupby_keys_def distinct_adj_altdef)
  then have "clean_lines ?out = foldl overlap_step [] ?out"
    by (simp add: clean_lines_def)
  with both show ?thesis by (simp add: foldl_overlap_step_id)
qed

theorem clean_lines_fixed_point_witness:
  "clean_lines [''hello'', ''hello'', ''world''] = [''hello'', ''world'']
   \<and> clean_lines (clean_lines [''hello'', ''hello'', ''world''])
       = clean_lines [''hello'', ''hello'', ''world'']"
proof -
  have out: "clean_lines [''hello'', ''hello'', ''world''] = [''hello'', ''world'']"
    by (simp add: clean_lines_def exact_pass_def groupby_keys_def overlap_step_def strip_def
        is_space_def whitespace_def)
  have "\<forall>i. i + 1 < length (clean_lines [''hello'', ''hello'', ''world''])
          \<longrightarrow> \<not> str_in (clean_lines [''hello'', ''hello'', ''world''] ! i)
                        (clean_lines [''hello'', ''hello'', ''world''] ! (i + 1))"
    unfolding out by simp
  from clean_lines_fixed_point [OF this] out show ?thesis by simp
qed

text \<open>
  The claim as stated fails: the output on "ab", "c", "abc" is "ab", "abc", and cleaning
  that output gives the single line "abc".
\<close>

theorem clean_lines_fixed_point_counterexample:
  "clean_lines (clean_lines [''ab'', ''c'', ''abc'']) \<noteq> clean_lines [''ab'', ''c'', ''abc'']"
  by (simp add: clean_lines_def exact_pass_def groupby_keys_def overlap_step_def strip_def
      is_space_def whitespace_def)

text \<open>
  C4. On the lines "the cat sat", "the cat sat on the mat", "on the mat" the first pass
  changes nothing, and \<open>clean_lines\<close> returns the single line "the cat sat on the mat".
\<close>

theorem clean_lines_cat_example:
  "exact_pass [''the cat sat'', ''the cat sat on the mat'', ''on the mat'']
     = [''the cat sat'', ''the cat sat on the mat'', ''on the mat'']
   \<and> overlap_step [] ''the cat sat'' = [''the cat sat'']
   \<and> overlap_step [''the cat sat''] ''the cat sat on the mat'' = [''the cat sat on the mat'']
   \<and> overlap_step [''the cat sat on the mat''] ''on the mat'' = [''the cat sat on the mat'']
   \<and> clean_lines [''the cat sat'', ''the cat sat on the mat'', ''on the mat'']
     = [''the cat sat on the mat'']"
  by (simp add: clean_lines_def exact_pass_def groupby_keys_def overlap_step_def strip_def
      is_space_def whitespace_def)

text \<open>
  C5. The output of \<open>clean_lines\<close> is no longer than its input, and it is a subsequence of
  the trimmed input lines: every output line is one of them, in the order of the input.
\<close>

theorem clean_lines_length_order:
  "length (clean_lines lines) \<le> length lines \<and> subseq (clean_lines lines) (map strip lines)"
proof -
  have s: "subseq (clean_lines lines) (map strip lines)"
    using subseq_clean_lines_exact subseq_exact_pass by (rule subseq_order.trans)
  from list_emb_length [OF s] show ?thesis using s by simp
qed

section \<open>Properties of the paragraph reducer\<close>

text \<open>
  C3, as the code has it. For every cleaned line list the paragraph text is the join, with
  single spaces, of every line reduced as follows: a leading marker \<open>[HH:MM:SS]\<close> is
  removed, whatever follows it (one space, more whitespace or none), and the rest is
  trimmed. No line of a cleaned list is dropped: the filter of the code tests the line
  before the marker is removed, and a cleaned line is never blank, so a line that is reduced
  to nothing stays in the join as an empty string.
\<close>

theorem paragraph_of_cleaned:
  "paragraph_text (clean_lines xs) = reduce_paragraph (clean_lines xs)"
  by (simp add: paragraph_text_def reduce_paragraph_def no_ts_clean_lines
      strip_timestamps_reduce_line)

text \<open>
  The claim as stated fails. With no space after the bracket the marker of the claim is
  absent and the code removes it all the same; and a line that is only a marker is reduced
  to the empty string and joined, which leaves two spaces between its neighbours.
\<close>

theorem paragraph_counterexample:
  "clean_lines [''[00:01:02]text''] = [''[00:01:02]text'']
   \<and> paragraph_text [''[00:01:02]text''] = ''text''
   \<and> spec_paragraph [''[00:01:02]text''] = ''[00:01:02]text''
   \<and> clean_lines [''a'', ''[00:00:01]'', ''b''] = [''a'', ''[00:00:01]'', ''b'']
   \<and> paragraph_text [''a'', ''[00:00:01]'', ''b''] = ''a  b''
   \<and> spec_paragraph [''a'', ''[00:00:01]'', ''b''] = ''a [00:00:01] b''"
  by (simp add: clean_lines_def exact_pass_def groupby_keys_def overlap_step_def strip_def
      is_space_def whitespace_def paragraph_text_def no_ts_def strip_timestamps_def
      match_timestamp_def is_digit_def spec_paragraph_def spec_strip_marker_def)

text \<open>
  C9. \<open>strip_timestamps\<close> removes a leading bracket \<open>[HH:MM:SS]\<close> together with any run
  of whitespace after it, the empty run included, and trims what is left: on a line made
  of a marker, whitespace and a rest, the result is the trimmed rest.
\<close>

theorem strip_timestamps_any_whitespace:
  assumes "timestamp_bracket b" and "\<forall>c\<in>set ws. is_space c"
  shows "strip_timestamps (b @ ws @ rest) = strip rest"
proof -
  from assms(1) have len: "length b = 10" by (rule timestamp_bracket_length)
  then have "match_timestamp (b @ ws @ rest) = Some (dropWhile is_space (ws @ rest))"
    using assms(1) by (simp add: match_timestamp_def)
  with assms(2) show ?thesis
    by (simp add: strip_timestamps_def dropWhile_all_append strip_dropWhile)
qed

theorem strip_timestamps_any_whitespace_witness:
  "timestamp_bracket ''[00:01:02]'' \<and> strip_timestamps ''[00:01:02]text'' = ''text''
   \<and> is_space (CHR '' '') \<and> is_space (CHR 0x09)
   \<and> strip_timestamps (''[00:01:02]'' @ [CHR '' '', CHR 0x09] @ ''text'') = ''text''"
proof -
  have b: "timestamp_bracket ''[00:01:02]''" by (simp add: is_digit_def)
  have none: "\<forall>c\<in>set ''''. is_space c" by simp
  have some: "\<forall>c\<in>set [CHR '' '', CHR 0x09]. is_space c"
    by (simp add: is_space_def whitespace_def)
  have t: "strip ''text'' = ''text''" by (simp add: strip_def is_space_def whitespace_def)
  have sp: "is_space (CHR '' '') \<and> is_space (CHR 0x09)"
    by (simp add: is_space_def whitespace_def)
  from strip_timestamps_any_whitespace [OF b none, of "''text''"]
       strip_timestamps_any_whitespace [OF b some, of "''text''"] b sp t
  show ?thesis by simp
qed

section \<open>Properties of the line projection\<close>

text \<open>
  C6. \<open>vtt_to_lines\<close> raises the error of the empty transcript exactly when the text of
  every cue is empty after trimming; otherwise, exactly when some cue has text that is not
  only whitespace, it returns a non-empty list of lines.
\<close>

theorem vtt_to_lines_empty_iff:
  "(vtt_to_lines cues ts = Inl empty_transcript_error) = (\<forall>c\<in>set cues. strip (cue_text c) = [])
   \<and> ((\<exists>lines. vtt_to_lines cues ts = Inr lines \<and> lines \<noteq> [])
        = (\<exists>c\<in>set cues. strip (cue_text c) \<noteq> []))"
  using project_cues_Nil_iff [of cues ts] by (auto simp: vtt_to_lines_def Let_def)

theorem vtt_to_lines_empty_iff_witness:
  "vtt_to_lines [\<lparr>cue_start = ''00:00:01.000'', cue_text = '' ''\<rparr>,
                 \<lparr>cue_start = ''00:00:02.500'', cue_text = [CHR 0x09, CHR 0x0A]\<rparr>] True
     = Inl empty_transcript_error
   \<and> (\<exists>lines. vtt_to_lines [\<lparr>cue_start = ''00:00:01.000'', cue_text = '' ''\<rparr>,
                             \<lparr>cue_start = ''00:00:02.500'', cue_text = ''hi''\<rparr>] True = Inr lines
         \<and> lines \<noteq> [])"
proof -
  have blank: "\<forall>c\<in>set [\<lparr>cue_start = ''00:00:01.000'', cue_text = '' ''\<rparr>,
                 \<lparr>cue_start = ''00:00:02.500'', cue_text = [CHR 0x09, CHR 0x0A]\<rparr>]. strip (cue_text c) = []"
    by (simp add: strip_def is_space_def whitespace_def)
  have some: "\<exists>c\<in>set [\<lparr>cue_start = ''00:00:01.000'', cue_text = '' ''\<rparr>,
                 \<lparr>cue_start = ''00:00:02.500'', cue_text = ''hi''\<rparr>]. strip (cue_text c) \<noteq> []"
    by (simp add: strip_def is_space_def whitespace_def)
  from vtt_to_lines_empty_iff [of "[\<lparr>cue_start = ''00:00:01.000'', cue_text = '' ''\<rparr>,
                 \<lparr>cue_start = ''00:00:02.500'', cue_text = [CHR 0x09, CHR 0x0A]\<rparr>]" True] blank
  have a: "vtt_to_lines [\<lparr>cue_start = ''00:00:01.000'', cue_text = '' ''\<rparr>,
                 \<lparr>cue_start = ''00:00:02.500'', cue_text = [CHR 0x09, CHR 0x0A]\<rparr>] True
     = Inl empty_transcript_error" by blast
  from vtt_to_lines_empty_iff [of "[\<lparr>cue_start = ''00:00:01.000'', cue_text = '' ''\<rparr>,
                 \<lparr>cue_start = ''00:00:02.500'', cue_text = ''hi''\<rparr>]" True] some
  have b: "\<exists>lines. vtt_to_lines [\<lparr>cue_start = ''00:00:01.000'', cue_text = '' ''\<rparr>,
                             \<lparr>cue_start = ''00:00:02.500'', cue_text = ''hi''\<rparr>] True = Inr lines
         \<and> lines \<noteq> []" by blast
  from a b show ?thesis by blast
qed

text \<open>
  C8. A cue whose start time is \<open>hms\<close>, a full stop and a fraction, \<open>hms\<close> without a full
  stop, and whose text is not blank is projected with timestamps to the line that starts
  with \<open>[hms]\<close> and a space: the fraction is cut off, whatever its digits. This holds for
  the cue alone and at any place in the loop.
\<close>

theorem timestamp_truncation:
  assumes "cue_start c = hms @ ''.'' @ frac" and "CHR ''.'' \<notin> set hms"
    and "strip (cue_text c) \<noteq> []"
  shows "vtt_to_lines [c] True = Inr [''['' @ hms @ ''] '' @ replace_newlines (strip (cue_text c))]
         \<and> project_cues (c # cs) True lines
             = project_cues cs True (lines @ [''['' @ hms @ ''] '' @ replace_newlines (strip (cue_text c))])"
  using assms by (simp add: vtt_to_lines_def Let_def replace_newlines_Nil split_dot_first_append)

theorem timestamp_truncation_witness:
  "vtt_to_lines [\<lparr>cue_start = ''00:01:02.345'', cue_text = ''hello''\<rparr>] True
     = Inr [''[00:01:02] hello'']
   \<and> vtt_to_lines [\<lparr>cue_start = ''00:01:02.999'', cue_text = ''hello''\<rparr>] True
     = Inr [''[00:01:02] hello'']"
proof -
  have s: "strip ''hello'' = ''hello''" by (simp add: strip_def is_space_def whitespace_def)
  have r: "replace_newlines ''hello'' = ''hello''" by (simp add: replace_newlines_def)
  from timestamp_truncation [of "\<lparr>cue_start = ''00:01:02.345'', cue_text = ''hello''\<rparr>" "''00:01:02''" "''345''" "[]" "[]"]
       timestamp_truncation [of "\<lparr>cue_start = ''00:01:02.999'', cue_text = ''hello''\<rparr>" "''00:01:02''" "''999''" "[]" "[]"]
       s r
  show ?thesis by simp
qed

section \<open>Properties of the batch loop\<close>

text \<open>
  C7. Let the absolute path of a file never be the empty string. For every list of
  references the batch loop returns one row per reference, in the order of the references.
  The row of the reference at index \<open>i\<close> is made from the result of \<open>save_transcript\<close> on
  that reference, with its last 11 characters as base name, in the state left by the
  references before it, whether those succeeded or failed: a returned triple gives the
  status \<open>OK\<close> and two non-empty paths, an exception gives the status \<open>ERROR:\<close> with its
  message and two empty paths.
\<close>

theorem batch_isolation:
  assumes "\<forall>q. path_abspath E q \<noteq> []"
  shows "length (snd (run_batch E ts entries w)) = length entries
    \<and> map fst (snd (run_batch E ts entries w)) = entries
    \<and> (\<forall>i<length entries.
          let item = entries ! i;
              w_i = fst (run_batch E ts (take i entries) w);
              r = snd (save_transcript E w_i item (drop (length item - 11) item) ts)
          in snd (run_batch E ts entries w) ! i = result_row item r
             \<and> (case r of
                  Inr (txt_path, para_path, vtt_path) \<Rightarrow>
                    result_row item r = (item, ''OK'', txt_path, para_path)
                    \<and> txt_path \<noteq> [] \<and> para_path \<noteq> []
                | Inl e \<Rightarrow> result_row item r = (item, ''ERROR: '' @ exn_msg e, [], [])))"
proof -
  have rows: "\<forall>i<length entries.
          let item = entries ! i;
              w_i = fst (run_batch E ts (take i entries) w);
              r = snd (save_transcript E w_i item (drop (length item - 11) item) ts)
          in snd (run_batch E ts entries w) ! i = result_row item r
             \<and> (case r of
                  Inr (txt_path, para_path, vtt_path) \<Rightarrow>
                    result_row item r = (item, ''OK'', txt_path, para_path)
                    \<and> txt_path \<noteq> [] \<and> para_path \<noteq> []
                | Inl e \<Rightarrow> result_row item r = (item, ''ERROR: '' @ exn_msg e, [], []))"
  proof (intro allI impI)
    fix i assume i: "i < length entries"
    define item where "item = entries ! i"
    define w_i where "w_i = fst (run_batch E ts (take i entries) w)"
    define r where "r = snd (save_transcript E w_i item (drop (length item - 11) item) ts)"
    have row: "snd (run_batch E ts entries w) ! i = result_row item r"
      using nth_run_batch [OF i, of E ts w] by (simp add: item_def w_i_def r_def py_slice_last_11)
    have shape: "case r of
                  Inr (txt_path, para_path, vtt_path) \<Rightarrow>
                    result_row item r = (item, ''OK'', txt_path, para_path)
                    \<and> txt_path \<noteq> [] \<and> para_path \<noteq> []
                | Inl e \<Rightarrow> result_row item r = (item, ''ERROR: '' @ exn_msg e, [], [])"
    proof (cases r)
      case (Inl e)
      then show ?thesis by simp
    next
      case (Inr paths)
      obtain t p x where paths: "paths = (t, p, x)" by (cases paths)
      have "save_transcript E w_i item (drop (length item - 11) item) ts
              = (fst (save_transcript E w_i item (drop (length item - 11) item) ts), Inr (t, p, x))"
        using Inr paths by (simp add: r_def prod_eq_iff)
      from save_transcript_paths [OF assms this] Inr paths show ?thesis by simp
    qed
    show "let item = entries ! i;
              w_i = fst (run_batch E ts (take i entries) w);
              r = snd (save_transcript E w_i item (drop (length item - 11) item) ts)
          in snd (run_batch E ts entries w) ! i = result_row item r
             \<and> (case r of
                  Inr (txt_path, para_path, vtt_path) \<Rightarrow>
                    result_row item r = (item, ''OK'', txt_path, para_path)
                    \<and> txt_path \<noteq> [] \<and> para_path \<noteq> []
                | Inl e \<Rightarrow> result_row item r = (item, ''ERROR: '' @ exn_msg e, [], []))"
      using row shape unfolding Let_def item_def w_i_def r_def by (rule conjI)
  qed
  from rows show ?thesis by (simp add: length_run_batch map_fst_run_batch)
qed

theorem batch_isolation_witness:
  "(\<forall>q. path_abspath demo_env q \<noteq> [])
   \<and> length (snd (run_batch demo_env False
                 [''AAAAAAAAAAA'', ''bad'', ''https://youtu.be/CCCCCCCCCCC''] [])) = 3
   \<and> map fst (snd (run_batch demo_env False
                 [''AAAAAAAAAAA'', ''bad'', ''https://youtu.be/CCCCCCCCCCC''] []))
       = [''AAAAAAAAAAA'', ''bad'', ''https://youtu.be/CCCCCCCCCCC'']
   \<and> run_batch demo_env False [''AAAAAAAAAAA'', ''bad'', ''https://youtu.be/CCCCCCCCCCC''] []
       = ([''out/AAAAAAAAAAA.txt'', ''out/AAAAAAAAAAA_paragraphs.txt'',
           ''out/CCCCCCCCCCC.txt'', ''out/CCCCCCCCCCC_paragraphs.txt''],
          [(''AAAAAAAAAAA'', ''OK'', ''/out/AAAAAAAAAAA.txt'', ''/out/AAAAAAAAAAA_paragraphs.txt''),
           (''bad'', ''ERROR: no subtitles'', [], []),
           (''https://youtu.be/CCCCCCCCCCC'', ''OK'', ''/out/CCCCCCCCCCC.txt'',
            ''/out/CCCCCCCCCCC_paragraphs.txt'')])"
proof -
  have abs: "\<forall>q. path_abspath demo_env q \<noteq> []"
    by (simp add: demo_env_def)
  have rows:
    "run_batch demo_env False [''AAAAAAAAAAA'', ''bad'', ''https://youtu.be/CCCCCCCCCCC''] []
       = ([''out/AAAAAAAAAAA.txt'', ''out/AAAAAAAAAAA_paragraphs.txt'',
           ''out/CCCCCCCCCCC.txt'', ''out/CCCCCCCCCCC_paragraphs.txt''],
          [(''AAAAAAAAAAA'', ''OK'', ''/out/AAAAAAAAAAA.txt'', ''/out/AAAAAAAAAAA_paragraphs.txt''),
           (''bad'', ''ERROR: no subtitles'', [], []),
           (''https://youtu.be/CCCCCCCCCCC'', ''OK'', ''/out/CCCCCCCCCCC.txt'',
            ''/out/CCCCCCCCCCC_paragraphs.txt'')])"
    by (simp add: run_batch_def save_transcript_def demo_env_def relocate_vtt_def py_slice_from_def
        vtt_to_lines_def clean_lines_def exact_pass_def groupby_keys_def overlap_step_def strip_def
        is_space_def whitespace_def replace_newlines_def paragraph_text_def no_ts_def
        strip_timestamps_def match_timestamp_def Let_def)
  from batch_isolation [OF abs, of False
      "[''AAAAAAAAAAA'', ''bad'', ''https://youtu.be/CCCCCCCCCCC'']" "[]"]
  have "length (snd (run_batch demo_env False
                 [''AAAAAAAAAAA'', ''bad'', ''https://youtu.be/CCCCCCCCCCC''] [])) = 3
    \<and> map fst (snd (run_batch demo_env False
                 [''AAAAAAAAAAA'', ''bad'', ''https://youtu.be/CCCCCCCCCCC''] []))
       = [''AAAAAAAAAAA'', ''bad'', ''https://youtu.be/CCCCCCCCCCC'']"
    by simp
  with abs rows show ?thesis by blast
qed

text \<open>
  C10. For a reference of fewer than 11 characters the slice \<open>item[-11:]\<close> is the whole
  reference, and the batch loop on that reference is one call of \<open>save_transcript\<close> with
  the reference itself as base name, followed by the row of its result.
\<close>

theorem base_name_short_reference:
  assumes "length item < 11"
  shows "py_slice_from (- 11) item = item
    \<and> run_batch E ts [item] w
        = (case save_transcript E w item item ts of (w', r) \<Rightarrow> (w', [result_row item r]))"
proof -
  from assms have "py_slice_from (- 11) item = item" by (simp add: py_slice_last_11)
  then show ?thesis by (simp add: run_batch_def Let_def)
qed

theorem base_name_short_reference_witness:
  "length ''abc'' < 11
   \<and> py_slice_from (- 11) ''abc'' = ''abc''
   \<and> run_batch demo_env False [''abc''] []
       = (case save_transcript demo_env [] ''abc'' ''abc'' False of
            (w', r) \<Rightarrow> (w', [result_row ''abc'' r]))"
proof -
  have short: "length ''abc'' < 11" by simp
  from base_name_short_reference [OF short, of demo_env False "[]"] short
  show ?thesis by blast
qed

end
